theory Spec2Isabelle
  imports Main
begin

section \<open>Python values of the field projector\<close>

text \<open>
  The helpers of \<^verbatim>\<open>imago/helpers.py\<close> walk a serialize configuration: a Python
  dictionary whose values are dictionaries again, or leaves of any kind. Python compares
  the visited objects by \<^verbatim>\<open>id\<close>, so the model keeps the objects that exist before a
  call in a store, indexed by address, and a value is a reference into it. \<^verbatim>\<open>None\<close>,
  \<^verbatim>\<open>True\<close> and \<^verbatim>\<open>False\<close> are singletons of the language and are values of their own.

  A dictionary or list that the call itself builds (\<^verbatim>\<open>ret\<close>, the
  \<^verbatim>\<open>{"fields": [...]}\<close> wrapper, its list of pairs) is written as a tree, \<open>VDict\<close> and
  \<open>VPairs\<close>. Such an object is fresh and referenced from one place only, so no lookup of
  its \<^verbatim>\<open>id\<close> in a memo can succeed; the memo of the model records the identities of the
  other values only. A dictionary keeps the insertion order of its keys (Python 3.7 and
  later), so it is an association list; its keys are distinct in Python, which no
  definition or proof below needs.
\<close>

type_synonym addr = nat

datatype val =
    VNone
  | VBool bool
  | VRef addr
  | VDict "(string \<times> val) list"
  | VPairs "(string \<times> val) list"

datatype obj =
    ODict "(string \<times> val) list"
  | OList "val list"
  | OStr string
  | OInt int
  | OFun

type_synonym heap = "obj list"

datatype error = FieldKeyError string | KeyError string | TypeError

text \<open>\<^verbatim>\<open>isinstance(obj, dict)\<close>, giving the items. An address outside the store does not
  occur in Python; the model reads it as an opaque object that is not a dictionary.\<close>

fun as_dict :: "heap \<Rightarrow> val \<Rightarrow> (string \<times> val) list option" where
  "as_dict h (VDict items) = Some items"
| "as_dict h (VRef a) =
     (if a < length h then (case h ! a of ODict items \<Rightarrow> Some items | _ \<Rightarrow> None) else None)"
| "as_dict h _ = None"

text \<open>The truth value Python gives an object in a condition.\<close>

fun truthy :: "heap \<Rightarrow> val \<Rightarrow> bool" where
  "truthy h VNone = False"
| "truthy h (VBool b) = b"
| "truthy h (VDict items) = (items \<noteq> [])"
| "truthy h (VPairs ps) = (ps \<noteq> [])"
| "truthy h (VRef a) =
     (if a < length h then
        (case h ! a of
           ODict items \<Rightarrow> items \<noteq> []
         | OList xs \<Rightarrow> xs \<noteq> []
         | OStr s \<Rightarrow> s \<noteq> []
         | OInt i \<Rightarrow> i \<noteq> 0
         | OFun \<Rightarrow> True)
      else True)"

text \<open>\<^verbatim>\<open>d.get(k)\<close>: the value, or \<^verbatim>\<open>None\<close> for a missing key.\<close>

definition dict_get :: "(string \<times> val) list \<Rightarrow> string \<Rightarrow> val" where
  "dict_get items k = (case map_of items k of None \<Rightarrow> VNone | Some v \<Rightarrow> v)"

text \<open>\<^verbatim>\<open>d[k] = v\<close>: an existing key keeps its position, a new key goes last.\<close>

fun dict_set :: "(string \<times> val) list \<Rightarrow> string \<Rightarrow> val \<Rightarrow> (string \<times> val) list" where
  "dict_set [] k v = [(k, v)]"
| "dict_set ((k', v') # rest) k v =
     (if k' = k then (k', v) # rest else (k', v') # dict_set rest k v)"

text \<open>\<^verbatim>\<open>root[k]\<close>: \<^verbatim>\<open>KeyError(k)\<close> on a dictionary without the key, \<^verbatim>\<open>TypeError\<close> on
  anything that is not a dictionary (\<^verbatim>\<open>None\<close>, a bool, a function, a list or a string
  indexed by a string).\<close>

definition subscript :: "heap \<Rightarrow> val \<Rightarrow> string \<Rightarrow> error + val" where
  "subscript h root k =
     (case as_dict h root of
        None \<Rightarrow> Inl TypeError
      | Some items \<Rightarrow> (case map_of items k of None \<Rightarrow> Inl (KeyError k) | Some v \<Rightarrow> Inr v))"

text \<open>Whether the identity of a value can be met again: every value but a fresh tree.\<close>

fun has_id :: "val \<Rightarrow> bool" where
  "has_id (VDict _) = False"
| "has_id (VPairs _) = False"
| "has_id _ = True"

section \<open>fwrap\<close>

text \<open>
  \<^verbatim>\<open>fwrap(obj, memo)\<close> of \<^verbatim>\<open>get_fields\<close>. The memo is a Python set shared by the
  recursive calls (it is never empty there, so \<^verbatim>\<open>memo if memo else set()\<close> keeps it);
  the model passes it in and returns it. \<open>fwrap_items\<close> is the list comprehension over
  \<^verbatim>\<open>obj.items()\<close>, evaluated left to right.
\<close>

function fwrap :: "heap \<Rightarrow> val set \<Rightarrow> val \<Rightarrow> val \<times> val set"
  and fwrap_items :: "heap \<Rightarrow> val set \<Rightarrow> (string \<times> val) list \<Rightarrow> (string \<times> val) list \<times> val set"
where
  "fwrap h memo obj =
     (if has_id obj \<and> obj \<in> memo then (VNone, memo)
      else
        (let memo1 = (if has_id obj then insert obj memo else memo) in
         (case as_dict h obj of
            None \<Rightarrow> (obj, memo1)
          | Some items \<Rightarrow>
              if items = [] \<or> truthy h (dict_get items ''fields'') then (obj, memo1)
              else
                (case fwrap_items h memo1 items of (rs, memo2) \<Rightarrow>
                   (let kept = filter (\<lambda>x. snd x \<noteq> VNone) rs
                    in if kept = [] then (VNone, memo2)
                       else (VDict [(''fields'', VPairs kept)], memo2))))))"
| "fwrap_items h memo [] = ([], memo)"
| "fwrap_items h memo ((x, y) # rest) =
     (case fwrap h memo y of (r, memo1) \<Rightarrow>
        (case fwrap_items h memo1 rest of (rs, memo2) \<Rightarrow> ((x, r) # rs, memo2)))"
  by pat_completeness auto

text \<open>
  Termination. The spec tree may be cyclic through the store, so the recursion is not
  structural. Each call that descends into a stored dictionary has just put its address
  into the memo; the number of addresses not yet in the memo falls, and between two such
  calls the recursion is on a smaller part of a fresh tree or of an item list.
\<close>

definition unvisited :: "heap \<Rightarrow> val set \<Rightarrow> nat" where
  "unvisited h memo = card {a. a < length h \<and> VRef a \<notin> memo}"

lemma unvisited_mono: "memo \<subseteq> memo' \<Longrightarrow> unvisited h memo' \<le> unvisited h memo"
  unfolding unvisited_def by (rule card_mono) auto

lemma unvisited_insert:
  "a < length h \<Longrightarrow> VRef a \<notin> memo \<Longrightarrow> unvisited h (insert (VRef a) memo) < unvisited h memo"
  unfolding unvisited_def by (rule psubset_card_mono) auto

lemma as_dict_size: "as_dict h obj = Some items \<Longrightarrow> has_id obj \<or> size_list (size_prod (\<lambda>_. 0) size) items < size obj"
  by (cases obj) auto

lemma as_dict_ref: "as_dict h obj = Some items \<Longrightarrow> has_id obj \<Longrightarrow> \<exists>a. obj = VRef a \<and> a < length h"
  by (cases obj) (auto split: if_splits)

lemma fwrap_memo_mono_dom:
  "fwrap_fwrap_items_dom (Inl (h, memo, v)) \<Longrightarrow> memo \<subseteq> snd (fwrap h memo v)"
  "fwrap_fwrap_items_dom (Inr (h, memo, items)) \<Longrightarrow> memo \<subseteq> snd (fwrap_items h memo items)"
proof (induction h memo v and h memo items rule: fwrap_fwrap_items.pinduct)
  case (1 h memo obj)
  let ?m1 = "if has_id obj then insert obj memo else memo"
  have sub: "memo \<subseteq> ?m1" by auto
  show ?case
  proof (cases "has_id obj \<and> obj \<in> memo")
    case True
    then show ?thesis using "1.hyps" by (simp add: fwrap.psimps)
  next
    case nv: False
    show ?thesis
    proof (cases "as_dict h obj")
      case None
      then show ?thesis using "1.hyps" nv sub by (simp add: fwrap.psimps Let_def)
    next
      case (Some items)
      show ?thesis
      proof (cases "items = [] \<or> truthy h (dict_get items ''fields'')")
        case True
        then show ?thesis using "1.hyps" nv sub Some by (simp add: fwrap.psimps Let_def)
      next
        case False
        have "?m1 \<subseteq> snd (fwrap_items h ?m1 items)"
          using "1.IH"[OF nv refl Some False] .
        moreover have "snd (fwrap h memo obj) = snd (fwrap_items h ?m1 items)"
          using "1.hyps" nv Some False
          by (simp add: fwrap.psimps Let_def split: prod.splits)
        ultimately show ?thesis using sub by blast
      qed
    qed
  qed
next
  case (2 h memo)
  then show ?case by (simp add: fwrap_items.psimps)
next
  case (3 h memo x y rest)
  then show ?case
    by (fastforce simp: fwrap_items.psimps split: prod.splits)
qed

lemma fwrap_dom_all: "All fwrap_fwrap_items_dom"
proof (relation
    "(\<lambda>x. case x of Inl (h, memo, v) \<Rightarrow> unvisited h memo
               | Inr (h, memo, items) \<Rightarrow> unvisited h memo)
     <*mlex*>
     measure (\<lambda>x. case x of Inl (h, memo, v) \<Rightarrow> size v
                      | Inr (h, memo, items) \<Rightarrow> size_list (size_prod (\<lambda>_. 0) size) items)",
    goal_cases)
  case 1
  then show ?case by (simp add: wf_mlex)
next
  case (2 h memo obj memo1 items)
  show ?case
  proof (cases "has_id obj")
    case True
    with 2 obtain a where "obj = VRef a" "a < length h" using as_dict_ref by blast
    with 2 True show ?thesis by (auto intro!: mlex_less unvisited_insert)
  next
    case False
    with 2 show ?thesis using as_dict_size[of h obj items] by (auto intro!: mlex_leq)
  qed
next
  case (3 h memo x y rest)
  then show ?case by (auto intro!: mlex_leq)
next
  case (4 h memo x y rest r memo1)
  then have "memo \<subseteq> memo1" using fwrap_memo_mono_dom(1)[of h memo y] by (metis snd_conv)
  then show ?case by (auto intro!: mlex_leq unvisited_mono)
qed

termination fwrap
  by (rule fwrap_dom_all)


section \<open>get_fields\<close>

text \<open>
  The first loop of \<^verbatim>\<open>get_fields\<close>: a field without a dot goes to \<^verbatim>\<open>concrete\<close>, a dotted
  one is split at its first dot (\<^verbatim>\<open>field.split(".", 1)\<close>) and its tail is appended to the
  list \<^verbatim>\<open>subfields[prefix]\<close>. \<^verbatim>\<open>subfields\<close> is a \<^verbatim>\<open>defaultdict(list)\<close>: a new prefix
  goes last, a known one keeps its position.
\<close>

type_synonym subfields = "(string \<times> string list) list"

fun subfields_append :: "subfields \<Rightarrow> string \<Rightarrow> string \<Rightarrow> subfields" where
  "subfields_append [] prefix postfix = [(prefix, [postfix])]"
| "subfields_append ((k, ps) # rest) prefix postfix =
     (if k = prefix then (k, ps @ [postfix]) # rest
      else (k, ps) # subfields_append rest prefix postfix)"

definition is_dot :: "char \<Rightarrow> bool" where
  "is_dot c = (c = CHR ''.'')"

fun split_fields :: "string list \<Rightarrow> string list \<Rightarrow> subfields \<Rightarrow> string list \<times> subfields" where
  "split_fields [] concrete subfields = (concrete, subfields)"
| "split_fields (field # fields) concrete subfields =
     (if \<not> list_ex is_dot field then split_fields fields (concrete @ [field]) subfields
      else
        (let prefix = takeWhile (\<lambda>c. \<not> is_dot c) field;
             postfix = tl (dropWhile (\<lambda>c. \<not> is_dot c) field)
         in split_fields fields concrete (subfields_append subfields prefix postfix)))"

text \<open>
  \<^verbatim>\<open>ret = {x: fwrap(root[x]) for x in concrete}\<close> inside \<^verbatim>\<open>try\<close>: a \<^verbatim>\<open>KeyError\<close> of the
  lookup is raised again as \<^verbatim>\<open>FieldKeyError(*e.args)\<close>, any other exception passes.
  Each \<^verbatim>\<open>fwrap\<close> here is a call without a memo, so it starts from an empty one.
\<close>

fun as_field_key_error :: "error \<Rightarrow> error" where
  "as_field_key_error (KeyError k) = FieldKeyError k"
| "as_field_key_error (FieldKeyError k) = FieldKeyError k"
| "as_field_key_error TypeError = TypeError"

fun concrete_ret :: "heap \<Rightarrow> val \<Rightarrow> string list \<Rightarrow> (string \<times> val) list \<Rightarrow> error + (string \<times> val) list" where
  "concrete_ret h root [] ret = Inr ret"
| "concrete_ret h root (x # xs) ret =
     (case subscript h root x of
        Inl e \<Rightarrow> Inl (as_field_key_error e)
      | Inr y \<Rightarrow> concrete_ret h root xs (dict_set ret x (fst (fwrap h {} y))))"

text \<open>
  \<^verbatim>\<open>"%s.%s" % (key, e.field)\<close> and \<^verbatim>\<open>"%s__%s" % (key, x)\<close>.
\<close>

definition dotted :: "string \<Rightarrow> string \<Rightarrow> string" where
  "dotted key field = key @ ''.'' @ field"

definition dunder :: "string \<Rightarrow> string \<Rightarrow> string" where
  "dunder key x = key @ ''__'' @ x"

text \<open>
  \<^verbatim>\<open>get_fields(root, fields)\<close>; \<open>get_fields_sub\<close> is its loop over
  \<^verbatim>\<open>subfields.items()\<close>, with \<^verbatim>\<open>prefetch\<close> and \<^verbatim>\<open>ret\<close> as they stand. The lookup
  \<^verbatim>\<open>root[key]\<close> stands inside the \<^verbatim>\<open>try\<close>, whose handler takes \<^verbatim>\<open>FieldKeyError\<close> only:
  a \<^verbatim>\<open>KeyError\<close> or \<^verbatim>\<open>TypeError\<close> of the lookup, or of the recursive call, leaves
  \<^verbatim>\<open>get_fields\<close> as it is.
\<close>

fun fields_weight :: "string list \<Rightarrow> nat" where
  "fields_weight [] = 0"
| "fields_weight (f # fs) = Suc (length f) + fields_weight fs"

fun subfields_weight :: "subfields \<Rightarrow> nat" where
  "subfields_weight [] = 0"
| "subfields_weight ((k, ps) # rest) = Suc (fields_weight ps) + subfields_weight rest"

function get_fields :: "heap \<Rightarrow> val \<Rightarrow> string list \<Rightarrow> error + (string set \<times> val)"
  and get_fields_sub :: "heap \<Rightarrow> val \<Rightarrow> subfields \<Rightarrow> string set \<Rightarrow> (string \<times> val) list
        \<Rightarrow> error + (string set \<times> (string \<times> val) list)"
where
  "get_fields h root fields =
     (case split_fields fields [] [] of (concrete, subfields) \<Rightarrow>
        (case concrete_ret h root concrete [] of
           Inl e \<Rightarrow> Inl e
         | Inr ret \<Rightarrow>
             (case get_fields_sub h root subfields {} ret of
                Inl e \<Rightarrow> Inl e
              | Inr (prefetch, ret') \<Rightarrow> Inr (prefetch, fst (fwrap h {} (VDict ret'))))))"
| "get_fields_sub h root [] prefetch ret = Inr (prefetch, ret)"
| "get_fields_sub h root ((key, fields) # rest) prefetch ret =
     (case subscript h root key of
        Inl e \<Rightarrow> Inl e
      | Inr sub \<Rightarrow>
          (case get_fields h sub fields of
             Inl (FieldKeyError f) \<Rightarrow> Inl (FieldKeyError (dotted key f))
           | Inl e \<Rightarrow> Inl e
           | Inr (prefetch', spec) \<Rightarrow>
               get_fields_sub h root rest
                 (insert key prefetch \<union> dunder key ` prefetch') (dict_set ret key spec)))"
  by pat_completeness auto

text \<open>
  Termination: every recursive call works on the tails of dotted fields, which are
  shorter than the fields they come from.
\<close>

lemma fields_weight_append [simp]: "fields_weight (xs @ ys) = fields_weight xs + fields_weight ys"
  by (induction xs) auto

lemma subfields_append_weight:
  "subfields_weight (subfields_append sf k p) \<le> subfields_weight sf + length p + 2"
  by (induction sf k p rule: subfields_append.induct) auto

lemma postfix_length:
  "list_ex is_dot field \<Longrightarrow> Suc (length (tl (dropWhile (\<lambda>c. \<not> is_dot c) field))) \<le> length field"
  by (induction field) (auto simp: is_dot_def)

lemma split_fields_weight:
  "subfields_weight (snd (split_fields fields concrete sf)) \<le> subfields_weight sf + fields_weight fields"
proof (induction fields concrete sf rule: split_fields.induct)
  case (1 concrete sf)
  then show ?case by simp
next
  case (2 field fields concrete sf)
  show ?case
  proof (cases "list_ex is_dot field")
    case False
    then show ?thesis using 2(1) by simp
  next
    case True
    let ?pre = "takeWhile (\<lambda>c. \<not> is_dot c) field"
    let ?post = "tl (dropWhile (\<lambda>c. \<not> is_dot c) field)"
    have "subfields_weight (snd (split_fields fields concrete (subfields_append sf ?pre ?post)))
          \<le> subfields_weight (subfields_append sf ?pre ?post) + fields_weight fields"
      using 2(2)[OF _ refl refl] True by simp
    also have "\<dots> \<le> subfields_weight sf + length ?post + 2 + fields_weight fields"
      using subfields_append_weight[of sf ?pre ?post] by simp
    also have "\<dots> \<le> subfields_weight sf + Suc (length field) + fields_weight fields"
      using postfix_length[OF True] by simp
    finally show ?thesis using True by (simp add: Let_def)
  qed
qed

lemma get_fields_dom_all: "All get_fields_get_fields_sub_dom"
proof (relation
    "measure (\<lambda>x. case x of Inl (h, root, fields) \<Rightarrow> 2 * fields_weight fields + 1
                      | Inr (h, root, sf, prefetch, ret) \<Rightarrow> 2 * subfields_weight sf)",
    goal_cases)
  case 1
  then show ?case by simp
next
  case (2 h root fields concrete sf ret)
  then have "sf = snd (split_fields fields [] [])" by (metis snd_conv)
  then show ?case using split_fields_weight[of fields "[]" "[]"] by simp
next
  case (3 h root key fields rest prefetch ret sub)
  then show ?case by simp
next
  case 4
  then show ?case by simp
qed

termination get_fields
  by (rule get_fields_dom_all)


declare fwrap.simps [simp del] get_fields.simps [simp del]

section \<open>Paths through the spec tree\<close>

text \<open>
  \<open>walk\<close> follows a list of keys from a node, one subscript per key; \<open>path\<close> writes the
  keys and a last name as one dotted field, the way a client requests it.
\<close>

fun walk :: "heap \<Rightarrow> val \<Rightarrow> string list \<Rightarrow> error + val" where
  "walk h node [] = Inr node"
| "walk h node (k # ks) = (case subscript h node k of Inl e \<Rightarrow> Inl e | Inr sub \<Rightarrow> walk h sub ks)"

fun path :: "string list \<Rightarrow> string \<Rightarrow> string" where
  "path [] x = x"
| "path (k # ks) x = dotted k (path ks x)"

lemma split_concrete: "\<not> list_ex is_dot x \<Longrightarrow> split_fields [x] [] [] = ([x], [])"
  by simp

lemma takeWhile_dotted: "\<not> list_ex is_dot k \<Longrightarrow> takeWhile (\<lambda>c. \<not> is_dot c) (dotted k f) = k"
  by (induction k) (auto simp: dotted_def is_dot_def)

lemma dropWhile_dotted: "\<not> list_ex is_dot k \<Longrightarrow> tl (dropWhile (\<lambda>c. \<not> is_dot c) (dotted k f)) = f"
  by (induction k) (auto simp: dotted_def is_dot_def)

lemma dotted_has_dot: "list_ex is_dot (dotted k f)"
  by (auto simp: dotted_def is_dot_def list_ex_iff)

lemma split_dotted: "\<not> list_ex is_dot k \<Longrightarrow> split_fields [dotted k f] [] [] = ([], [(k, [f])])"
  by (simp add: dotted_has_dot takeWhile_dotted dropWhile_dotted Let_def)

lemma get_fields_missing_concrete:
  assumes "\<not> list_ex is_dot x" "subscript h root x = Inl (KeyError x)"
  shows "get_fields h root [x] = Inl (FieldKeyError x)"
  using assms by (simp add: get_fields.simps)

lemma get_fields_path:
  assumes "\<forall>k\<in>set ks. \<not> list_ex is_dot k" "\<not> list_ex is_dot x"
      "walk h root ks = Inr node" "subscript h node x = Inl (KeyError x)"
  shows "get_fields h root [path ks x] = Inl (FieldKeyError (path ks x))"
  using assms
proof (induction ks arbitrary: root)
  case Nil
  then show ?case by (simp add: get_fields_missing_concrete)
next
  case (Cons k ks)
  from Cons.prems obtain sub where sub: "subscript h root k = Inr sub" "walk h sub ks = Inr node"
    by (auto split: sum.splits)
  have "get_fields h sub [path ks x] = Inl (FieldKeyError (path ks x))"
    using Cons.IH[OF _ Cons.prems(2) sub(2) Cons.prems(4)] Cons.prems(1) by simp
  moreover have "split_fields [dotted k (path ks x)] [] [] = ([], [(k, [path ks x])])"
    using Cons.prems(1) by (intro split_dotted) simp
  ultimately show ?case using sub(1)
    by (simp add: get_fields.simps[of h root])
qed


definition rebuild :: "subfields \<Rightarrow> string set" where
  "rebuild sf = {dotted k f | k f fs. (k, fs) \<in> set sf \<and> f \<in> set fs}"

lemma rebuild_Nil [simp]: "rebuild [] = {}"
  by (simp add: rebuild_def)

lemma rebuild_Cons: "rebuild ((k, fs) # rest) = dotted k ` set fs \<union> rebuild rest"
  by (auto simp: rebuild_def)

lemma rebuild_append: "rebuild (subfields_append sf k p) = insert (dotted k p) (rebuild sf)"
  by (induction sf k p rule: subfields_append.induct) (auto simp: rebuild_Cons)

lemma dotted_split:
  "list_ex is_dot f \<Longrightarrow>
     dotted (takeWhile (\<lambda>c. \<not> is_dot c) f) (tl (dropWhile (\<lambda>c. \<not> is_dot c) f)) = f"
  by (induction f) (auto simp: dotted_def is_dot_def)

lemma split_fields_concrete:
  "set (fst (split_fields fields c sf)) = set c \<union> {f \<in> set fields. \<not> list_ex is_dot f}"
  by (induction fields c sf rule: split_fields.induct) (auto simp: Let_def)

lemma split_fields_rebuild:
  "rebuild (snd (split_fields fields c sf)) = rebuild sf \<union> {f \<in> set fields. list_ex is_dot f}"
  by (induction fields c sf rule: split_fields.induct)
     (auto simp: Let_def rebuild_append dotted_split)

lemma subscript_error: "subscript h root k = Inl e \<Longrightarrow> e = KeyError k \<or> e = TypeError"
  by (auto simp: subscript_def split: option.splits)

lemma concrete_ret_error:
  "concrete_ret h root cs ret = Inl (FieldKeyError p) \<Longrightarrow> p \<in> set cs"
proof (induction cs arbitrary: ret)
  case Nil
  then show ?case by simp
next
  case (Cons x xs)
  show ?case
  proof (cases "subscript h root x")
    case (Inl e)
    with Cons.prems subscript_error[OF Inl] show ?thesis by auto
  next
    case (Inr y)
    with Cons show ?thesis by auto
  qed
qed

lemma field_key_error_requested:
  "get_fields h root fields = Inl (FieldKeyError p) \<Longrightarrow> p \<in> set fields"
  "get_fields_sub h root sf pf ret = Inl (FieldKeyError p) \<Longrightarrow> p \<in> rebuild sf"
proof (induction h root fields and h root sf pf ret arbitrary: p and p
       rule: get_fields_get_fields_sub.induct)
  case (1 h root fields)
  obtain concrete sf where sp: "split_fields fields [] [] = (concrete, sf)"
    by (cases "split_fields fields [] []")
  have c: "set concrete \<subseteq> set fields"
    using split_fields_concrete[of fields "[]" "[]"] sp by auto
  have r: "rebuild sf \<subseteq> set fields"
    using split_fields_rebuild[of fields "[]" "[]"] sp by auto
  show ?case
  proof (cases "concrete_ret h root concrete []")
    case (Inl e)
    with "1.prems" sp have "concrete_ret h root concrete [] = Inl (FieldKeyError p)"
      by (simp add: get_fields.simps)
    then show ?thesis using concrete_ret_error c by blast
  next
    case (Inr ret)
    with "1.prems" sp have "get_fields_sub h root sf {} ret = Inl (FieldKeyError p)"
      by (simp add: get_fields.simps split: sum.splits prod.splits)
    then have "p \<in> rebuild sf" using "1.IH"[OF sp[symmetric] Inr] by simp
    then show ?thesis using r by blast
  qed
next
  case (2 h root prefetch ret)
  then show ?case by simp
next
  case (3 h root key fields rest prefetch ret)
  show ?case
  proof (cases "subscript h root key")
    case (Inl e)
    with "3.prems" subscript_error[OF Inl] show ?thesis by auto
  next
    case (Inr sub)
    show ?thesis
    proof (cases "get_fields h sub fields")
      case (Inl e)
      show ?thesis
      proof (cases e)
        case (FieldKeyError f)
        with Inl have "f \<in> set fields" using "3.IH"(1)[OF Inr] by simp
        moreover have "p = dotted key f" using "3.prems" Inr Inl FieldKeyError by simp
        ultimately show ?thesis by (auto simp: rebuild_Cons)
      next
        case (KeyError k)
        with "3.prems" Inr Inl show ?thesis by simp
      next
        case TypeError
        with "3.prems" Inr Inl show ?thesis by simp
      qed
    next
      case (Inr res)
      obtain pf' spec where res: "res = (pf', spec)" by (cases res)
      with "3.prems" \<open>subscript h root key = Inr sub\<close> Inr
      have "get_fields_sub h root rest (insert key prefetch \<union> dunder key ` pf') (dict_set ret key spec)
              = Inl (FieldKeyError p)" by simp
      then have "p \<in> rebuild rest"
        using "3.IH"(2)[OF \<open>subscript h root key = Inr sub\<close> Inr res[symmetric]] res by simp
      then show ?thesis by (auto simp: rebuild_Cons)
    qed
  qed
qed

text \<open>The first group of \<^verbatim>\<open>subfields\<close> belongs to the first dotted field of the request, and
  the lookups of fields without a dot succeed when the root has them all.\<close>

lemma subfields_append_hd:
  "sf \<noteq> [] \<Longrightarrow> subfields_append sf k p \<noteq> [] \<and> fst (hd (subfields_append sf k p)) = fst (hd sf)"
  by (cases sf) (auto split: if_splits)

lemma split_fields_hd:
  "sf \<noteq> [] \<Longrightarrow> snd (split_fields flds c sf) \<noteq> [] \<and>
     fst (hd (snd (split_fields flds c sf))) = fst (hd sf)"
proof (induction flds c sf rule: split_fields.induct)
  case (1 concrete sf)
  then show ?case by simp
next
  case (2 field flds concrete sf)
  show ?case
  proof (cases "list_ex is_dot field")
    case False
    with 2 show ?thesis by simp
  next
    case True
    let ?sf = "subfields_append sf (takeWhile (\<lambda>c. \<not> is_dot c) field)
                 (tl (dropWhile (\<lambda>c. \<not> is_dot c) field))"
    have a: "?sf \<noteq> [] \<and> fst (hd ?sf) = fst (hd sf)"
      using subfields_append_hd[OF "2.prems"] by blast
    then have "snd (split_fields flds concrete ?sf) \<noteq> [] \<and>
               fst (hd (snd (split_fields flds concrete ?sf))) = fst (hd ?sf)"
      using "2.IH"(2)[OF _ refl refl] True by blast
    with a True show ?thesis by (simp add: Let_def)
  qed
qed

lemma split_fields_undotted:
  "\<forall>c\<in>set cs. \<not> list_ex is_dot c \<Longrightarrow>
     split_fields (cs @ flds) concrete sf = split_fields flds (concrete @ cs) sf"
  by (induction cs arbitrary: concrete) auto

lemma split_fields_first_dotted:
  assumes "\<forall>c\<in>set cs. \<not> list_ex is_dot c" "\<not> list_ex is_dot p"
  shows "\<exists>ps sf. split_fields (cs @ dotted p rest # others) [] [] =
                   (cs @ filter (\<lambda>f. \<not> list_ex is_dot f) others, (p, ps) # sf)"
proof -
  let ?r = "split_fields others cs [(p, [rest])]"
  have eq: "split_fields (cs @ dotted p rest # others) [] [] = ?r"
    using assms split_fields_undotted[of cs "dotted p rest # others" "[]" "[]"]
    by (simp add: dotted_has_dot takeWhile_dotted dropWhile_dotted Let_def)
  have hd: "snd ?r \<noteq> [] \<and> fst (hd (snd ?r)) = p"
    using split_fields_hd[of "[(p, [rest])]" others cs] by simp
  have c: "fst ?r = cs @ filter (\<lambda>f. \<not> list_ex is_dot f) others"
  proof -
    have "fst (split_fields fs c sf) = c @ filter (\<lambda>f. \<not> list_ex is_dot f) fs" for fs c sf
      by (induction fs c sf rule: split_fields.induct) (auto simp: Let_def)
    then show ?thesis by simp
  qed
  obtain g sf where g: "snd ?r = g # sf" using hd by (cases "snd ?r") auto
  obtain k ps where k: "g = (k, ps)" by (cases g)
  with hd g have "k = p" by simp
  with g k c eq show ?thesis by (metis prod.collapse)
qed

lemma concrete_ret_present:
  assumes "as_dict h root = Some items" "\<forall>c\<in>set cs. c \<in> fst ` set items"
  shows "\<exists>ret'. concrete_ret h root cs ret = Inr ret'"
  using assms(2)
proof (induction cs arbitrary: ret)
  case Nil
  then show ?case by simp
next
  case (Cons c cs)
  then have "c \<in> fst ` set items" by simp
  then obtain v where "map_of items c = Some v"
    by (metis domD dom_map_of_conv_image_fst)
  then have "subscript h root c = Inr v" using assms(1) by (simp add: subscript_def)
  with Cons show ?case by simp
qed

text \<open>
  What \<^verbatim>\<open>get_fields\<close> does when the prefix of a dotted field is missing: the
  \<^verbatim>\<open>KeyError\<close> of the lookup \<^verbatim>\<open>root[key]\<close> passes every handler unchanged, at the top
  level and from any depth of the recursion.
\<close>

lemma get_fields_missing_prefix:
  assumes "as_dict h root = Some items" and "map_of items p = None" and "\<not> list_ex is_dot p"
      and "\<forall>c\<in>set cs. \<not> list_ex is_dot c \<and> c \<in> fst ` set items"
      and "\<forall>c\<in>set others. list_ex is_dot c \<or> c \<in> fst ` set items"
  shows "get_fields h root (cs @ dotted p rest # others) = Inl (KeyError p)"
proof -
  obtain ps sf where sp: "split_fields (cs @ dotted p rest # others) [] [] =
                   (cs @ filter (\<lambda>f. \<not> list_ex is_dot f) others, (p, ps) # sf)"
    using split_fields_first_dotted[of cs p rest others] assms(3,4) by blast
  have "\<forall>c\<in>set (cs @ filter (\<lambda>f. \<not> list_ex is_dot f) others). c \<in> fst ` set items"
    using assms(4,5) by auto
  then obtain ret where cr: "concrete_ret h root (cs @ filter (\<lambda>f. \<not> list_ex is_dot f) others) [] = Inr ret"
    using concrete_ret_present[OF assms(1)] by blast
  have "subscript h root p = Inl (KeyError p)"
    using assms(1,2) by (simp add: subscript_def)
  then show ?thesis
    by (subst get_fields.simps) (simp add: sp cr)
qed

lemma get_fields_missing_prefix_nested:
  assumes "\<forall>k\<in>set ks. \<not> list_ex is_dot k" and "\<not> list_ex is_dot p"
      and "walk h root ks = Inr node"
      and "as_dict h node = Some items" and "map_of items p = None"
  shows "get_fields h root [path ks (dotted p rest)] = Inl (KeyError p)"
  using assms(1,3)
proof (induction ks arbitrary: root)
  case Nil
  then have "root = node" by simp
  then show ?case
    using get_fields_missing_prefix[of h root items p "[]" "[]" rest] assms(2,4,5) by simp
next
  case (Cons k ks)
  from Cons.prems obtain sub where sub: "subscript h root k = Inr sub" "walk h sub ks = Inr node"
    by (auto split: sum.splits)
  have "get_fields h sub [path ks (dotted p rest)] = Inl (KeyError p)"
    using Cons.IH[OF _ sub(2)] Cons.prems(1) by simp
  moreover have "split_fields [dotted k (path ks (dotted p rest))] [] [] =
                   ([], [(k, [path ks (dotted p rest)])])"
    using Cons.prems(1) by (intro split_dotted) simp
  ultimately show ?case using sub(1)
    by (simp add: get_fields.simps[of h root])
qed

section \<open>Groups of dotted fields\<close>

text \<open>
  The groups of \<^verbatim>\<open>subfields\<close> in the words of the specification: the group of a prefix
  holds the tails of the dotted fields that start with it, in the order requested.
  \<open>recursive_prefetch\<close> is the prefetch set that the recursive call for a group returns.
\<close>

definition prefix_of :: "string \<Rightarrow> string" where
  "prefix_of field = takeWhile (\<lambda>c. \<not> is_dot c) field"

definition postfix_of :: "string \<Rightarrow> string" where
  "postfix_of field = tl (dropWhile (\<lambda>c. \<not> is_dot c) field)"

definition group_of :: "string \<Rightarrow> string list \<Rightarrow> string list" where
  "group_of key fields = map postfix_of (filter (\<lambda>f. list_ex is_dot f \<and> prefix_of f = key) fields)"

definition recursive_prefetch :: "heap \<Rightarrow> val \<Rightarrow> string \<Rightarrow> string list \<Rightarrow> string set" where
  "recursive_prefetch h root key fs =
     (case subscript h root key of
        Inl e \<Rightarrow> {}
      | Inr sub \<Rightarrow> (case get_fields h sub fs of Inl e \<Rightarrow> {} | Inr (prefetch, spec) \<Rightarrow> prefetch))"

lemma group_of_Nil [simp]: "group_of k [] = []"
  by (simp add: group_of_def)

lemma group_of_Cons:
  "group_of k (f # fs) =
     (if list_ex is_dot f \<and> prefix_of f = k then postfix_of f # group_of k fs else group_of k fs)"
  by (simp add: group_of_def)

lemma subfields_append_keys:
  "fst ` set (subfields_append sf k p) = insert k (fst ` set sf)"
  by (induction sf k p rule: subfields_append.induct) auto

lemma subfields_append_distinct:
  "distinct (map fst sf) \<Longrightarrow> distinct (map fst (subfields_append sf k p))"
  by (induction sf k p rule: subfields_append.induct) (auto simp: subfields_append_keys)

lemma subfields_append_map_of:
  "map_of (subfields_append sf k p) =
     (map_of sf)(k \<mapsto> (case map_of sf k of None \<Rightarrow> [] | Some ps \<Rightarrow> ps) @ [p])"
  by (induction sf k p rule: subfields_append.induct) (auto simp: fun_eq_iff)

lemma split_fields_distinct:
  "distinct (map fst sf) \<Longrightarrow> distinct (map fst (snd (split_fields fields c sf)))"
  by (induction fields c sf rule: split_fields.induct)
     (auto simp: Let_def subfields_append_distinct)

lemma split_fields_map_of:
  "map_of (snd (split_fields fields c sf)) k =
     (case map_of sf k of
        None \<Rightarrow> if group_of k fields = [] then None else Some (group_of k fields)
      | Some ps \<Rightarrow> Some (ps @ group_of k fields))"
proof (induction fields c sf rule: split_fields.induct)
  case (1 concrete sf)
  then show ?case by (simp split: option.splits)
next
  case (2 field fields concrete sf)
  show ?case
  proof (cases "list_ex is_dot field")
    case False
    then show ?thesis using 2(1) by (simp add: group_of_Cons split: option.splits)
  next
    case True
    have "map_of (snd (split_fields (field # fields) concrete sf)) k =
          map_of (snd (split_fields fields concrete
                    (subfields_append sf (prefix_of field) (postfix_of field)))) k"
      using True by (simp add: Let_def prefix_of_def postfix_of_def)
    also have "\<dots> = (case map_of (subfields_append sf (prefix_of field) (postfix_of field)) k of
        None \<Rightarrow> if group_of k fields = [] then None else Some (group_of k fields)
      | Some ps \<Rightarrow> Some (ps @ group_of k fields))"
      using 2(2)[OF _ refl refl] True by (simp add: prefix_of_def postfix_of_def)
    also have "\<dots> = (case map_of sf k of
        None \<Rightarrow> if group_of k (field # fields) = [] then None else Some (group_of k (field # fields))
      | Some ps \<Rightarrow> Some (ps @ group_of k (field # fields)))"
      using True by (auto simp: subfields_append_map_of group_of_Cons split: option.splits)
    finally show ?thesis .
  qed
qed

lemma split_fields_groups:
  "set (snd (split_fields fields [] [])) = {(k, group_of k fields) | k. group_of k fields \<noteq> []}"
proof -
  let ?sf = "snd (split_fields fields [] [])"
  have d: "distinct (map fst ?sf)" by (rule split_fields_distinct) simp
  have m: "map_of ?sf k = (if group_of k fields = [] then None else Some (group_of k fields))" for k
    using split_fields_map_of[of fields "[]" "[]" k] by simp
  show ?thesis
  proof (rule set_eqI)
    fix x :: "string \<times> string list"
    obtain k fs where x: "x = (k, fs)" by (cases x)
    have "(k, fs) \<in> set ?sf \<longleftrightarrow> map_of ?sf k = Some fs"
      using d by simp
    also have "\<dots> \<longleftrightarrow> fs = group_of k fields \<and> group_of k fields \<noteq> []"
      by (auto simp: m)
    finally show "x \<in> set ?sf \<longleftrightarrow> x \<in> {(k, group_of k fields) | k. group_of k fields \<noteq> []}"
      using x by auto
  qed
qed

lemma get_fields_sub_prefetch:
  "get_fields_sub h root sf pf ret = Inr (pf', ret') \<Longrightarrow>
     pf' = pf \<union> (\<Union>(key, fs) \<in> set sf. insert key (dunder key ` recursive_prefetch h root key fs))
     \<and> (\<forall>(key, fs) \<in> set sf. \<exists>sub p s. subscript h root key = Inr sub \<and> get_fields h sub fs = Inr (p, s))"
proof (induction sf arbitrary: pf ret)
  case Nil
  then show ?case by simp
next
  case (Cons g rest)
  obtain key fs where g: "g = (key, fs)" by (cases g)
  from Cons.prems g obtain sub where sub: "subscript h root key = Inr sub"
    by (auto split: sum.splits)
  from Cons.prems g sub obtain p s where rec: "get_fields h sub fs = Inr (p, s)"
    by (auto split: sum.splits error.splits)
  have rp: "recursive_prefetch h root key fs = p"
    by (simp add: recursive_prefetch_def sub rec)
  from Cons.prems g sub rec
  have "get_fields_sub h root rest (insert key pf \<union> dunder key ` p) (dict_set ret key s) = Inr (pf', ret')"
    by simp
  from Cons.IH[OF this] show ?case using g sub rec rp by auto
qed

lemma get_fields_prefetch:
  assumes "get_fields h root fields = Inr (prefetch, spec)"
  shows "prefetch = (\<Union>key \<in> {k. group_of k fields \<noteq> []}.
                       insert key (dunder key ` recursive_prefetch h root key (group_of key fields)))"
    and "\<forall>key. group_of key fields \<noteq> [] \<longrightarrow>
           (\<exists>sub p s. subscript h root key = Inr sub \<and> get_fields h sub (group_of key fields) = Inr (p, s))"
proof -
  obtain concrete sf where sp: "split_fields fields [] [] = (concrete, sf)"
    by (cases "split_fields fields [] []")
  from assms sp obtain ret ret' where "get_fields_sub h root sf {} ret = Inr (prefetch, ret')"
    by (auto simp: get_fields.simps split: sum.splits prod.splits)
  note * = get_fields_sub_prefetch[OF this]
  have sf: "set sf = {(k, group_of k fields) | k. group_of k fields \<noteq> []}"
    using split_fields_groups[of fields] sp by simp
  show "prefetch = (\<Union>key \<in> {k. group_of k fields \<noteq> []}.
                       insert key (dunder key ` recursive_prefetch h root key (group_of key fields)))"
    using * unfolding sf by auto
  show "\<forall>key. group_of key fields \<noteq> [] \<longrightarrow>
           (\<exists>sub p s. subscript h root key = Inr sub \<and> get_fields h sub (group_of key fields) = Inr (p, s))"
    using * unfolding sf by auto
qed

section \<open>Values that fwrap leaves alone\<close>

text \<open>
  \<open>fields_spec\<close> is the end of \<^verbatim>\<open>fwrap\<close>: drop the entries whose value is \<^verbatim>\<open>None\<close>, give
  \<^verbatim>\<open>None\<close> when nothing is left and \<^verbatim>\<open>{"fields": [...]}\<close> otherwise. A value is
  \<open>normalized\<close> when \<^verbatim>\<open>fwrap\<close> returns it as it is: anything but a dictionary, an empty
  dictionary, or one whose \<^verbatim>\<open>"fields"\<close> entry is true.
\<close>

definition fields_spec :: "(string \<times> val) list \<Rightarrow> val" where
  "fields_spec entries =
     (let kept = filter (\<lambda>x. snd x \<noteq> VNone) entries
      in if kept = [] then VNone else VDict [(''fields'', VPairs kept)])"





lemma fwrap_built_dict:
  "items \<noteq> [] \<Longrightarrow> \<not> truthy h (dict_get items ''fields'') \<Longrightarrow>
     fst (fwrap h memo (VDict items)) = fields_spec (fst (fwrap_items h memo items))"
  by (simp add: fwrap.simps[of h memo "VDict items"] Let_def fields_spec_def split: prod.splits)






section \<open>The memo\<close>

lemma fwrap_memo_mono:
  "memo \<subseteq> snd (fwrap h memo v)"
  "memo \<subseteq> snd (fwrap_items h memo items)"
  using fwrap_memo_mono_dom fwrap_dom_all by blast+

lemma fwrap_revisit: "has_id obj \<Longrightarrow> obj \<in> memo \<Longrightarrow> fwrap h memo obj = (VNone, memo)"
  by (simp add: fwrap.simps)

lemma fwrap_items_revisit:
  "has_id obj \<Longrightarrow> obj \<in> memo \<Longrightarrow> (k, obj) \<in> set items \<Longrightarrow>
     (k, VNone) \<in> set (fst (fwrap_items h memo items))"
proof (induction items arbitrary: memo)
  case Nil
  then show ?case by simp
next
  case (Cons e rest)
  obtain x y where e: "e = (x, y)" by (cases e)
  obtain r memo1 where r: "fwrap h memo y = (r, memo1)" by (cases "fwrap h memo y")
  obtain rs memo2 where rs: "fwrap_items h memo1 rest = (rs, memo2)"
    by (cases "fwrap_items h memo1 rest")
  have m1: "obj \<in> memo1" using fwrap_memo_mono(1)[of memo h y] r Cons.prems(2) by auto
  show ?case
  proof (cases "(k, obj) = e")
    case True
    then have "r = VNone" using r e fwrap_revisit[OF Cons.prems(1,2)] by simp
    then show ?thesis using True e r rs by simp
  next
    case False
    then have "(k, obj) \<in> set rest" using Cons.prems(3) by simp
    from Cons.IH[OF Cons.prems(1) m1 this] show ?thesis using e r rs by simp
  qed
qed

text \<open>What the last \<^verbatim>\<open>fwrap\<close> of \<^verbatim>\<open>get_fields\<close> does with a merged dictionary whose
  values are all \<^verbatim>\<open>None\<close>, and with one that has a true \<^verbatim>\<open>"fields"\<close> entry.\<close>

lemma fwrap_None: "fst (fwrap h memo VNone) = VNone"
  by (simp add: fwrap.simps)

lemma fwrap_items_all_None:
  "list_all (\<lambda>x. snd x = VNone) items \<Longrightarrow>
     list_all (\<lambda>x. snd x = VNone) (fst (fwrap_items h memo items))"
proof (induction items arbitrary: memo)
  case Nil
  then show ?case by simp
next
  case (Cons e rest)
  obtain x y where e: "e = (x, y)" by (cases e)
  with Cons.prems have y: "y = VNone" by simp
  obtain r memo1 where r: "fwrap h memo y = (r, memo1)" by (cases "fwrap h memo y")
  then have "r = VNone" using fwrap_None[of h memo] y by simp
  moreover have "list_all (\<lambda>x. snd x = VNone) (fst (fwrap_items h memo1 rest))"
    using Cons.IH Cons.prems by simp
  ultimately show ?case using e r by (auto split: prod.splits)
qed

lemma dict_get_all_None: "list_all (\<lambda>x. snd x = VNone) items \<Longrightarrow> dict_get items k = VNone"
  by (induction items) (auto simp: dict_get_def)

lemma fwrap_all_None:
  assumes "ret \<noteq> []" "list_all (\<lambda>x. snd x = VNone) ret"
  shows "fst (fwrap h memo (VDict ret)) = VNone"
proof -
  have "\<not> truthy h (dict_get ret ''fields'')"
    using dict_get_all_None[OF assms(2)] by simp
  then have "fst (fwrap h memo (VDict ret)) = fields_spec (fst (fwrap_items h memo ret))"
    using assms(1) by (intro fwrap_built_dict)
  moreover have "filter (\<lambda>x. snd x \<noteq> VNone) (fst (fwrap_items h memo ret)) = []"
    using fwrap_items_all_None[OF assms(2), of h memo] by (simp add: list_all_iff filter_empty_conv)
  ultimately show ?thesis by (simp add: fields_spec_def)
qed

lemma fwrap_truthy_fields:
  "truthy h (dict_get ret ''fields'') \<Longrightarrow> fwrap h memo (VDict ret) = (VDict ret, memo)"
  by (simp add: fwrap.simps)

section \<open>Example spec trees\<close>

text \<open>
  \<open>relation_spec\<close> is \<^verbatim>\<open>{"id": {}, "a": {"b": {}, "c": {}}}\<close>, every \<^verbatim>\<open>{}\<close> an object of
  its own. \<open>nested_spec\<close> has one more level under \<^verbatim>\<open>a.c\<close>. In \<open>selfref_spec\<close> the entry
  \<^verbatim>\<open>parent\<close> of the root is the root itself. \<open>none_spec\<close> is
  \<^verbatim>\<open>{"n": None, "rel": {"n": None}}\<close>, and \<open>fields_key_spec\<close> is
  \<^verbatim>\<open>{"fields": ["id"], "id": {}}\<close>.
\<close>

definition relation_spec :: heap where
  "relation_spec =
     [ODict [(''id'', VRef 1), (''a'', VRef 2)], ODict [],
      ODict [(''b'', VRef 3), (''c'', VRef 4)], ODict [], ODict []]"

definition nested_spec :: heap where
  "nested_spec =
     [ODict [(''id'', VRef 1), (''a'', VRef 2)], ODict [],
      ODict [(''b'', VRef 3), (''c'', VRef 4)], ODict [], ODict [(''d'', VRef 5)], ODict []]"

definition selfref_spec :: heap where
  "selfref_spec = [ODict [(''name'', VRef 1), (''parent'', VRef 0)], ODict []]"

definition none_spec :: heap where
  "none_spec = [ODict [(''n'', VNone), (''rel'', VRef 1)], ODict [(''n'', VNone)]]"

definition fields_key_spec :: heap where
  "fields_key_spec =
     [ODict [(''fields'', VRef 1), (''id'', VRef 2)], OList [VRef 3], ODict [], OStr ''id'']"

section \<open>Claims about get_fields\<close>

text \<open>
  C1. Every failing lookup below the top level should come out of \<^verbatim>\<open>get_fields\<close> as a
  \<^verbatim>\<open>FieldKeyError\<close> with the fully qualified dotted path. The code does so when the last
  name of a path is missing: \<^verbatim>\<open>"a.bogus"\<close> raises \<^verbatim>\<open>FieldKeyError("a.bogus")\<close>. It does not
  when the failing lookup is that of a prefix inside the recursive call: for
  \<^verbatim>\<open>"a.p.rest"\<close>, where \<^verbatim>\<open>a\<close> has no \<^verbatim>\<open>p\<close>, the lookup \<^verbatim>\<open>root[key]\<close> of the recursive call
  raises \<^verbatim>\<open>KeyError("p")\<close>, which the handlers for \<^verbatim>\<open>FieldKeyError\<close> at every level let pass:
  \<^verbatim>\<open>get_fields\<close> raises a plain \<^verbatim>\<open>KeyError\<close> that names \<^verbatim>\<open>p\<close> alone.
\<close>

theorem nested_prefix_unqualified_key_error:
  "get_fields relation_spec (VRef 0) [''a.p.rest''] = Inl (KeyError ''p'') \<and>
   get_fields relation_spec (VRef 0) [''a.bogus''] = Inl (FieldKeyError ''a.bogus'') \<and>
   get_fields relation_spec (VRef 0) [''bogus''] = Inl (FieldKeyError ''bogus'')"
  by code_simp

text \<open>
  C2. When \<^verbatim>\<open>get_fields\<close> returns, its prefetch set is the union, over the groups of
  dotted fields that share a prefix, of the prefix itself and of \<^verbatim>\<open>prefix + "__" + x\<close> for
  every \<open>x\<close> in the prefetch set of the recursive call on that group; every such
  recursive call has returned. Fields without a dot add nothing.
\<close>

theorem get_fields_prefetch_groups:
  assumes "get_fields h root fields = Inr (prefetch, spec)"
  shows "prefetch = (\<Union>key \<in> {k. group_of k fields \<noteq> []}.
                       insert key (dunder key ` recursive_prefetch h root key (group_of key fields)))
         \<and> (\<forall>key. group_of key fields \<noteq> [] \<longrightarrow>
               (\<exists>sub p s. subscript h root key = Inr sub \<and>
                         get_fields h sub (group_of key fields) = Inr (p, s)))"
  using get_fields_prefetch[OF assms] by blast

text \<open>The request \<^verbatim>\<open>["id", "a.b", "a.c.d"]\<close> on \<open>nested_spec\<close>.\<close>

theorem get_fields_prefetch_groups_witness:
  "get_fields nested_spec (VRef 0) [''id'', ''a.b'', ''a.c.d''] =
     Inr ({''a'', ''a__c''},
          VDict [(''fields'', VPairs [(''id'', VRef 1),
            (''a'', VDict [(''fields'', VPairs [(''b'', VRef 3),
               (''c'', VDict [(''fields'', VPairs [(''d'', VRef 5)])])])])])])
   \<and> {''a'', ''a__c''} =
       (\<Union>key \<in> {k. group_of k [''id'', ''a.b'', ''a.c.d''] \<noteq> []}.
          insert key (dunder key `
            recursive_prefetch nested_spec (VRef 0) key (group_of key [''id'', ''a.b'', ''a.c.d''])))
   \<and> group_of ''a'' [''id'', ''a.b'', ''a.c.d''] = [''b'', ''c.d'']
   \<and> recursive_prefetch nested_spec (VRef 0) ''a'' [''b'', ''c.d''] = {''c''}"
proof -
  have g: "get_fields nested_spec (VRef 0) [''id'', ''a.b'', ''a.c.d''] =
     Inr ({''a'', ''a__c''},
          VDict [(''fields'', VPairs [(''id'', VRef 1),
            (''a'', VDict [(''fields'', VPairs [(''b'', VRef 3),
               (''c'', VDict [(''fields'', VPairs [(''d'', VRef 5)])])])])])])"
    by code_simp
  have grp: "group_of ''a'' [''id'', ''a.b'', ''a.c.d''] = [''b'', ''c.d'']"
    by (simp add: group_of_def prefix_of_def postfix_of_def is_dot_def)
  have rp: "recursive_prefetch nested_spec (VRef 0) ''a'' [''b'', ''c.d''] = {''c''}"
    by code_simp
  show ?thesis
    by (intro conjI, rule g, rule get_fields_prefetch_groups[OF g, THEN conjunct1], rule grp, rule rp)
qed

text \<open>
  C3. A dotted field \<^verbatim>\<open>p.rest\<close> whose prefix \<open>p\<close> is missing from the root should fail with
  \<^verbatim>\<open>FieldKeyError("p")\<close>, as a missing field without a dot does: the request \<^verbatim>\<open>"p"\<close> raises
  \<^verbatim>\<open>FieldKeyError("p")\<close>. The code misses the case: for \<^verbatim>\<open>"p.rest"\<close> the lookup \<^verbatim>\<open>root[key]\<close>
  stands in a \<^verbatim>\<open>try\<close> whose handler takes \<^verbatim>\<open>FieldKeyError\<close> only, and \<^verbatim>\<open>get_fields\<close> raises
  the plain \<^verbatim>\<open>KeyError("p")\<close> of the lookup.
\<close>

theorem missing_prefix_plain_key_error:
  "get_fields relation_spec (VRef 0) [''p.rest''] = Inl (KeyError ''p'') \<and>
   get_fields relation_spec (VRef 0) [''p.rest''] \<noteq> Inl (FieldKeyError ''p'') \<and>
   get_fields relation_spec (VRef 0) [''p''] = Inl (FieldKeyError ''p'')"
  by code_simp

text \<open>
  C4. \<^verbatim>\<open>get_fields\<close> and \<^verbatim>\<open>fwrap\<close> terminate on every store, cyclic ones included. The
  domain predicate of a recursive definition holds of the arguments of a call exactly
  when the recursion below that call is well-founded, that is, when the call returns;
  it holds of every call of \<^verbatim>\<open>fwrap\<close> and of \<^verbatim>\<open>get_fields\<close>. The reason is the memo:
  \<^verbatim>\<open>fwrap\<close> on an object whose identity is in the memo returns \<^verbatim>\<open>None\<close> at once and leaves
  the memo as it is, and so an entry of a dictionary that refers to a visited object
  comes out as \<^verbatim>\<open>None\<close>, which the filter then drops.
\<close>

theorem fwrap_cycle_safe:
  "fwrap_fwrap_items_dom (Inl (h, memo, obj)) \<and>
   get_fields_get_fields_sub_dom (Inl (h, root, fields)) \<and>
   (has_id obj \<and> obj \<in> memo \<longrightarrow> fwrap h memo obj = (VNone, memo)) \<and>
   (has_id obj \<and> obj \<in> memo \<and> (k, obj) \<in> set items \<longrightarrow>
      (k, VNone) \<in> set (fst (fwrap_items h memo items)))"
  using fwrap_dom_all get_fields_dom_all fwrap_revisit fwrap_items_revisit by blast

text \<open>
  On \<open>selfref_spec\<close>, whose root is its own \<^verbatim>\<open>parent\<close>: the revisit gives \<^verbatim>\<open>None\<close>, and
  \<^verbatim>\<open>get_fields\<close> returns for a request that goes round the cycle twice.
\<close>

theorem fwrap_cycle_safe_witness:
  "has_id (VRef 0) \<and> VRef 0 \<in> {VRef 0} \<and>
   (''parent'', VRef 0) \<in> set [(''name'', VRef 1), (''parent'', VRef 0)] \<and>
   fwrap selfref_spec {VRef 0} (VRef 0) = (VNone, {VRef 0}) \<and>
   (''parent'', VNone) \<in> set (fst (fwrap_items selfref_spec {VRef 0}
                                  [(''name'', VRef 1), (''parent'', VRef 0)])) \<and>
   get_fields selfref_spec (VRef 0) [''parent'', ''parent.parent.name''] =
     Inr ({''parent'', ''parent__parent''},
          VDict [(''fields'', VPairs [(''parent'',
            VDict [(''fields'', VPairs [(''parent'',
              VDict [(''fields'', VPairs [(''name'', VRef 1)])])])])])])"
proof -
  have g: "get_fields selfref_spec (VRef 0) [''parent'', ''parent.parent.name''] =
     Inr ({''parent'', ''parent__parent''},
          VDict [(''fields'', VPairs [(''parent'',
            VDict [(''fields'', VPairs [(''parent'',
              VDict [(''fields'', VPairs [(''name'', VRef 1)])])])])])])"
    by code_simp
  show ?thesis
    using fwrap_cycle_safe[of selfref_spec "{VRef 0}" "VRef 0" "VRef 0" "[]" "''parent''"
            "[(''name'', VRef 1), (''parent'', VRef 0)]"] g
    by simp
qed




text \<open>
  C9. There are a spec tree and a non-empty list of valid fields for which the pruned
  spec is \<^verbatim>\<open>None\<close>: on \<open>none_spec\<close> every requested value normalizes to \<^verbatim>\<open>None\<close> (the value
  \<^verbatim>\<open>None\<close> itself, and a relation whose only entry is \<^verbatim>\<open>None\<close>), and the prefetch set is
  returned as usual. The rule behind it: the last \<^verbatim>\<open>fwrap\<close> turns a merged dictionary
  that is not empty and whose values are all \<^verbatim>\<open>None\<close> into \<^verbatim>\<open>None\<close>.
\<close>

theorem get_fields_pruned_none:
  "get_fields none_spec (VRef 0) [''n'', ''rel'', ''rel.n''] = Inr ({''rel''}, VNone) \<and>
   (ret \<noteq> [] \<and> list_all (\<lambda>x. snd x = VNone) ret \<longrightarrow> fst (fwrap h memo (VDict ret)) = VNone)"
proof -
  have "get_fields none_spec (VRef 0) [''n'', ''rel'', ''rel.n''] = Inr ({''rel''}, VNone)"
    by code_simp
  then show ?thesis using fwrap_all_None by blast
qed

text \<open>The merged dictionary of that request, \<^verbatim>\<open>{"n": None, "rel": None}\<close>.\<close>

theorem get_fields_pruned_none_witness:
  "[(''n'', VNone), (''rel'', VNone)] \<noteq> [] \<and>
   list_all (\<lambda>x. snd x = VNone) [(''n'', VNone), (''rel'', VNone)] \<and>
   fst (fwrap none_spec {} (VDict [(''n'', VNone), (''rel'', VNone)])) = VNone \<and>
   get_fields none_spec (VRef 0) [''n'', ''rel'', ''rel.n''] = Inr ({''rel''}, VNone)"
  using get_fields_pruned_none[of "[(''n'', VNone), (''rel'', VNone)]" none_spec "{}"]
  by simp

text \<open>
  C10. There is a spec tree with a top-level field named \<^verbatim>\<open>"fields"\<close> whose normalized
  value is true, for which \<^verbatim>\<open>get_fields\<close> returns the merged dictionary \<^verbatim>\<open>ret\<close> itself
  as the pruned spec, not wrapped in \<^verbatim>\<open>{"fields": [...]}\<close>: on \<open>fields_key_spec\<close> the value of
  \<^verbatim>\<open>"fields"\<close> is a non-empty list. The rule behind it: \<^verbatim>\<open>fwrap\<close> returns a merged
  dictionary with a true \<^verbatim>\<open>"fields"\<close> entry as it is.
\<close>

theorem get_fields_fields_key_passthrough:
  "get_fields fields_key_spec (VRef 0) [''fields'', ''id''] =
     Inr ({}, VDict [(''fields'', VRef 1), (''id'', VRef 2)]) \<and>
   (truthy h (dict_get ret ''fields'') \<longrightarrow> fwrap h memo (VDict ret) = (VDict ret, memo))"
proof -
  have "get_fields fields_key_spec (VRef 0) [''fields'', ''id''] =
     Inr ({}, VDict [(''fields'', VRef 1), (''id'', VRef 2)])"
    by code_simp
  then show ?thesis using fwrap_truthy_fields by blast
qed

text \<open>The merged dictionary of that request, \<^verbatim>\<open>{"fields": ["id"], "id": {}}\<close>.\<close>

theorem get_fields_fields_key_passthrough_witness:
  "truthy fields_key_spec (dict_get [(''fields'', VRef 1), (''id'', VRef 2)] ''fields'') \<and>
   fwrap fields_key_spec {} (VDict [(''fields'', VRef 1), (''id'', VRef 2)]) =
     (VDict [(''fields'', VRef 1), (''id'', VRef 2)], {}) \<and>
   get_fields fields_key_spec (VRef 0) [''fields'', ''id''] =
     Inr ({}, VDict [(''fields'', VRef 1), (''id'', VRef 2)])"
proof -
  have t: "truthy fields_key_spec (dict_get [(''fields'', VRef 1), (''id'', VRef 2)] ''fields'')"
    by (simp add: dict_get_def fields_key_spec_def)
  from get_fields_fields_key_passthrough
         [of fields_key_spec "[(''fields'', VRef 1), (''id'', VRef 2)]" "{}"] t
  show ?thesis by simp
qed

section \<open>The endpoints\<close>

text \<open>
  \<^verbatim>\<open>request.params\<close> is a dictionary from parameter names to strings. The views raise
  \<^verbatim>\<open>HttpError(status, message)\<close>; the three messages of the source are
  \<^verbatim>\<open>'No such page (heh, literally - its out of bounds)'\<close>,
  \<^verbatim>\<open>"Error: You've asked for a field (%s) that is invalid. Check the docs for this model."\<close>
  with the field of the \<^verbatim>\<open>FieldKeyError\<close>, and \<^verbatim>\<open>"Error: Invalid field: %s"\<close> with the
  \<^verbatim>\<open>KeyError\<close>; a message is written as its format and the text put into it. Every other
  exception leaves a view uncaught.
\<close>

type_synonym params = "string \<rightharpoonup> string"

datatype message = NoSuchPage | InvalidFieldPath string | InvalidField string

datatype failure =
    HttpError nat message
  | Uncaught error
  | ValueError
  | ZeroDivisionError
  | EmptyPage
  | DoesNotExist
  | CollaboratorError string

text \<open>The decorator \<^verbatim>\<open>cachebusterable\<close>: pop \<^verbatim>\<open>"_"\<close> from the parameters when it is
  there, then call the view.\<close>

definition cachebusterable :: "(params \<Rightarrow> 'b) \<Rightarrow> params \<Rightarrow> 'b" where
  "cachebusterable fn params =
     fn (if ''_'' \<in> dom params then params(''_'' := None) else params)"

text \<open>
  \<^verbatim>\<open>int(s)\<close> on a string: surrounding white space (space, tab, line feed, vertical tab,
  form feed, carriage return) is stripped, a sign may lead, and the rest is decimal digits, with single underscores between digits allowed; anything
  else is a \<^verbatim>\<open>ValueError\<close>, here \<open>None\<close>. Characters are bytes in this model, so digits
  and spaces outside ASCII are not covered, nor is the limit that Python 3.11 puts on the
  number of digits.
\<close>

definition is_py_space :: "char \<Rightarrow> bool" where
  "is_py_space c = (let n = (of_char c :: nat) in (9 \<le> n \<and> n \<le> 13) \<or> n = 32)"

definition is_py_digit :: "char \<Rightarrow> bool" where
  "is_py_digit c = (let n = (of_char c :: nat) in 48 \<le> n \<and> n \<le> 57)"

definition digit_val :: "char \<Rightarrow> int" where
  "digit_val c = int (of_char c) - 48"

fun py_digits :: "string \<Rightarrow> int \<Rightarrow> bool \<Rightarrow> int option" where
  "py_digits [] acc prev = (if prev then Some acc else None)"
| "py_digits (c # cs) acc prev =
     (if is_py_digit c then py_digits cs (acc * 10 + digit_val c) True
      else if c = CHR ''_'' \<and> prev then py_digits cs acc False
      else None)"

definition py_strip :: "string \<Rightarrow> string" where
  "py_strip s = rev (dropWhile is_py_space (rev (dropWhile is_py_space s)))"

definition py_int :: "string \<Rightarrow> int option" where
  "py_int s =
     (case py_strip s of
        [] \<Rightarrow> None
      | c # cs \<Rightarrow>
          if c = CHR ''-'' then map_option uminus (py_digits cs 0 False)
          else if c = CHR ''+'' then py_digits cs 0 False
          else py_digits (c # cs) 0 False)"

text \<open>\<^verbatim>\<open>s.split(",")\<close>: the empty string gives one empty part.\<close>

fun split_on :: "char \<Rightarrow> string \<Rightarrow> string list" where
  "split_on sep [] = [[]]"
| "split_on sep (c # cs) =
     (if c = sep then [] # split_on sep cs
      else (case split_on sep cs of [] \<Rightarrow> [[c]] | w # ws \<Rightarrow> (c # w) # ws))"

text \<open>
  Modelled from the spec: the paginator of the data source (Django's \<^verbatim>\<open>Paginator\<close>, its
  \<^verbatim>\<open>Page\<close> and \<^verbatim>\<open>EmptyPage\<close>), which the source imports and does not define. By the
  specification the data source supports "pagination returning a bounded page plus an
  end-index" and "raises an empty page condition when the page number exceeds available
  pages"; the end index is the "index of the last item on the page (relative to the full
  unpaginated result, not the page)". Pages are numbered from 1 and hold \<open>per\<close> items, the
  last one what is left. Where the specification is silent the model follows Django: a
  number below 1 is an empty page too, the first page of an empty result exists, and a
  page size of 0 divides by zero.
\<close>

record 'a page =
  object_list :: "'a list"
  end_index :: nat

definition num_pages :: "nat \<Rightarrow> 'a list \<Rightarrow> nat" where
  "num_pages per data = (length data + per - 1) div per"

definition paginator_page :: "nat \<Rightarrow> 'a list \<Rightarrow> int \<Rightarrow> failure + 'a page" where
  "paginator_page per data number =
     (if per = 0 then Inl ZeroDivisionError
      else if number < 1 \<or> (int (num_pages per data) < number \<and> number \<noteq> 1) then Inl EmptyPage
      else Inr \<lparr>object_list = take per (drop ((nat number - 1) * per) data),
                end_index = min (nat number * per) (length data)\<rparr>)"

text \<open>
  The response of the list view, \<^verbatim>\<open>{"meta": {...}, "results": [...]}\<close> with the header
  \<^verbatim>\<open>Access-Control-Allow-Origin\<close>, and of the detail view, the serialized object with the
  same header.
\<close>

record meta =
  meta_count :: nat
  meta_page :: int
  meta_per_page :: nat
  meta_max_page :: nat
  meta_total_count :: nat

record 'r list_response =
  meta :: meta
  results :: "'r list"
  allow_origin :: string

record 'r detail_response =
  body :: 'r
  detail_allow_origin :: string

text \<open>
  The two view classes, with their attributes and the collaborators they call: the rows
  of \<^verbatim>\<open>get_query_set\<close>, \<^verbatim>\<open>QuerySet.filter(**kwargs)\<close>, \<^verbatim>\<open>QuerySet.order_by(*sort_by)\<close>,
  \<^verbatim>\<open>prefetch_related(*related).get(pk=pk)\<close> and \<^verbatim>\<open>serialize(obj, **config)\<close>. A collaborator
  may fail. \<open>store\<close> holds the objects of \<^verbatim>\<open>serialize_config\<close>.
\<close>

record ('a, 'r) list_endpoint =
  per_page :: nat
  store :: heap
  serialize_config :: val
  default_fields :: "string list"
  get_query_set :: "'a list"
  data_filter :: "params \<Rightarrow> 'a list \<Rightarrow> failure + 'a list"
  data_order_by :: "string list \<Rightarrow> 'a list \<Rightarrow> failure + 'a list"
  serialize :: "'a \<Rightarrow> (string \<times> val) list \<Rightarrow> failure + 'r"

record ('a, 'r) detail_endpoint =
  detail_store :: heap
  detail_serialize_config :: val
  detail_default_fields :: "string list"
  data_get :: "string set \<Rightarrow> string \<Rightarrow> failure + 'a"
  detail_serialize :: "'a \<Rightarrow> (string \<times> val) list \<Rightarrow> failure + 'r"

text \<open>The methods \<^verbatim>\<open>adjust_filters\<close>, \<^verbatim>\<open>filter\<close>, \<^verbatim>\<open>sort\<close> and \<^verbatim>\<open>paginate\<close> as
  \<^verbatim>\<open>PublicListEndpoint\<close> defines them; a subclass may override them.\<close>

definition adjust_filters :: "params \<Rightarrow> params" where
  "adjust_filters params = params"

definition filter_data :: "('a, 'r) list_endpoint \<Rightarrow> 'a list \<Rightarrow> params \<Rightarrow> failure + 'a list" where
  "filter_data ep data kwargs = data_filter ep (adjust_filters kwargs) data"

definition sort_data :: "('a, 'r) list_endpoint \<Rightarrow> 'a list \<Rightarrow> string list \<Rightarrow> failure + 'a list" where
  "sort_data ep data sort_by = data_order_by ep sort_by data"

definition paginate :: "('a, 'r) list_endpoint \<Rightarrow> 'a list \<Rightarrow> int \<Rightarrow> failure + 'a page" where
  "paginate ep data number = paginator_page (per_page ep) data number"

text \<open>The list comprehension \<^verbatim>\<open>[serialize(x, **config) for x in ...]\<close>, which stops at the
  first failure.\<close>

fun serialize_all :: "('a \<Rightarrow> failure + 'r) \<Rightarrow> 'a list \<Rightarrow> failure + 'r list" where
  "serialize_all f [] = Inr []"
| "serialize_all f (x # xs) =
     (case f x of
        Inl e \<Rightarrow> Inl e
      | Inr r \<Rightarrow> (case serialize_all f xs of Inl e \<Rightarrow> Inl e | Inr rs \<Rightarrow> Inr (r # rs)))"

text \<open>
  \<^verbatim>\<open>if 'page' in params: page = int(params.pop('page'))\<close>, and the same step for
  \<^verbatim>\<open>sort_by\<close> and \<^verbatim>\<open>fields\<close>, which split the popped string at commas.
\<close>

definition pop_page :: "params \<Rightarrow> failure + (int \<times> params)" where
  "pop_page params =
     (case params ''page'' of
        None \<Rightarrow> Inr (1, params)
      | Some s \<Rightarrow>
          (case py_int s of
             None \<Rightarrow> Inl ValueError
           | Some n \<Rightarrow> Inr (n, params(''page'' := None))))"

definition pop_list :: "string \<Rightarrow> string list \<Rightarrow> params \<Rightarrow> string list \<times> params" where
  "pop_list key otherwise params =
     (case params key of
        None \<Rightarrow> (otherwise, params)
      | Some s \<Rightarrow> (split_on CHR '','' s, params(key := None)))"

text \<open>
  \<^verbatim>\<open>PublicListEndpoint.get\<close>, statement by statement. The call
  \<^verbatim>\<open>self.filter(data, **params)\<close> is a \<^verbatim>\<open>TypeError\<close> when a remaining parameter is named
  \<^verbatim>\<open>self\<close> or \<^verbatim>\<open>data\<close>, the two positional arguments of \<^verbatim>\<open>filter\<close>. \<^verbatim>\<open>**config\<close> needs a
  mapping: with a pruned spec that is not a dictionary the first \<^verbatim>\<open>serialize\<close> call is a
  \<^verbatim>\<open>TypeError\<close>.
  The page is taken before \<^verbatim>\<open>prefetch_related\<close>, which changes no row.
\<close>

definition list_get_body :: "('a, 'r) list_endpoint \<Rightarrow> params \<Rightarrow> failure + 'r list_response" where
  "list_get_body ep params0 =
     (case pop_page params0 of
        Inl e \<Rightarrow> Inl e
      | Inr (page, params1) \<Rightarrow>
     (case pop_list ''sort_by'' [] params1 of (sort_by, params2) \<Rightarrow>
     (case pop_list ''fields'' (default_fields ep) params2 of (field_list, params3) \<Rightarrow>
     (case (if ''self'' \<in> dom params3 \<or> ''data'' \<in> dom params3 then Inl (Uncaught TypeError)
            else filter_data ep (get_query_set ep) params3) of
        Inl e \<Rightarrow> Inl e
      | Inr filtered \<Rightarrow>
     (case sort_data ep filtered sort_by of
        Inl e \<Rightarrow> Inl e
      | Inr data \<Rightarrow>
     (case paginate ep data page of
        Inl EmptyPage \<Rightarrow> Inl (HttpError 404 NoSuchPage)
      | Inl e \<Rightarrow> Inl e
      | Inr data_page \<Rightarrow>
     (case get_fields (store ep) (serialize_config ep) field_list of
        Inl (FieldKeyError f) \<Rightarrow> Inl (HttpError 400 (InvalidFieldPath f))
      | Inl (KeyError k) \<Rightarrow> Inl (HttpError 400 (InvalidField k))
      | Inl TypeError \<Rightarrow> Inl (Uncaught TypeError)
      | Inr (related, config) \<Rightarrow>
     (case (if object_list data_page = [] then Inr []
            else (case as_dict (store ep) config of
                    None \<Rightarrow> Inl (Uncaught TypeError)
                  | Some kwargs \<Rightarrow> serialize_all (\<lambda>x. serialize ep x kwargs) (object_list data_page))) of
        Inl e \<Rightarrow> Inl e
      | Inr rs \<Rightarrow>
          Inr \<lparr>meta = \<lparr>meta_count = length (object_list data_page), meta_page = page,
                         meta_per_page = per_page ep, meta_max_page = end_index data_page,
                         meta_total_count = length data\<rparr>,
               results = rs, allow_origin = ''*''\<rparr>))))))))"

definition list_get :: "('a, 'r) list_endpoint \<Rightarrow> params \<Rightarrow> failure + 'r list_response" where
  "list_get ep = cachebusterable (list_get_body ep)"

text \<open>\<^verbatim>\<open>PublicDetailEndpoint.get\<close>: the call of \<^verbatim>\<open>get_fields\<close> stands outside any
  \<^verbatim>\<open>try\<close>.\<close>

definition detail_get_body :: "('a, 'r) detail_endpoint \<Rightarrow> string \<Rightarrow> params \<Rightarrow> failure + 'r detail_response" where
  "detail_get_body ep pk params0 =
     (case pop_list ''fields'' (detail_default_fields ep) params0 of (field_list, params1) \<Rightarrow>
     (case get_fields (detail_store ep) (detail_serialize_config ep) field_list of
        Inl e \<Rightarrow> Inl (Uncaught e)
      | Inr (related, config) \<Rightarrow>
     (case data_get ep related pk of
        Inl e \<Rightarrow> Inl e
      | Inr obj \<Rightarrow>
     (case as_dict (detail_store ep) config of
        None \<Rightarrow> Inl (Uncaught TypeError)
      | Some kwargs \<Rightarrow>
     (case detail_serialize ep obj kwargs of
        Inl e \<Rightarrow> Inl e
      | Inr r \<Rightarrow> Inr \<lparr>body = r, detail_allow_origin = ''*''\<rparr>)))))"

definition detail_get :: "('a, 'r) detail_endpoint \<Rightarrow> string \<Rightarrow> params \<Rightarrow> failure + 'r detail_response" where
  "detail_get ep pk = cachebusterable (detail_get_body ep pk)"

lemma serialize_all_map:
  "list_all (\<lambda>x. f x = Inr (out x)) xs \<Longrightarrow> serialize_all f xs = Inr (map out xs)"
  by (induction xs) auto

lemma pop_page_dom: "pop_page params = Inr (n, params') \<Longrightarrow> dom params' \<subseteq> dom params"
  by (auto simp: pop_page_def split: option.splits if_splits)

lemma pop_list_dom: "pop_list key d params = (xs, params') \<Longrightarrow> dom params' \<subseteq> dom params"
  by (auto simp: pop_list_def split: option.splits if_splits)

lemma cachebusterable_drop:
  "cachebusterable fn (params(''_'' \<mapsto> v)) = fn (params(''_'' := None))"
  "cachebusterable fn (params(''_'' := None)) = fn (params(''_'' := None))"
  by (simp_all add: cachebusterable_def)

lemma list_get_body_filter_irrelevant:
  assumes "''_'' \<notin> dom params"
  shows "list_get_body (ep\<lparr>data_filter := \<lambda>kw. if ''_'' \<in> dom kw then g kw else data_filter ep kw\<rparr>) params
           = list_get_body ep params"
proof (cases "pop_page params")
  case (Inl e)
  then show ?thesis by (simp add: list_get_body_def)
next
  case (Inr r)
  obtain n p1 where r: "r = (n, p1)" by (cases r)
  obtain sort_by p2 where p2: "pop_list ''sort_by'' [] p1 = (sort_by, p2)"
    by (cases "pop_list ''sort_by'' [] p1")
  obtain fl p3 where p3: "pop_list ''fields'' (default_fields ep) p2 = (fl, p3)"
    by (cases "pop_list ''fields'' (default_fields ep) p2")
  have "dom p3 \<subseteq> dom params"
    using pop_page_dom[of params n p1] pop_list_dom[OF p2] pop_list_dom[OF p3] Inr r by blast
  then have nd: "''_'' \<notin> dom p3" using assms by blast
  then have fd: "filter_data (ep\<lparr>data_filter := \<lambda>kw. if ''_'' \<in> dom kw then g kw else data_filter ep kw\<rparr>)
              (get_query_set ep) p3 = filter_data ep (get_query_set ep) p3"
    by (simp add: filter_data_def adjust_filters_def)
  show ?thesis
    using Inr r p2 p3 fd
    by (simp add: list_get_body_def sort_data_def paginate_def
             cong: sum.case_cong failure.case_cong error.case_cong prod.case_cong option.case_cong
               if_cong)
qed

definition page_request :: "string \<Rightarrow> params" where
  "page_request n = [''page'' \<mapsto> n]"

lemma list_get_page:
  assumes pp: "per_page ep = 100"
      and f: "data_filter ep Map.empty (get_query_set ep) = Inr filtered"
      and s: "data_order_by ep [] filtered = Inr data"
      and g: "get_fields (store ep) (serialize_config ep) (default_fields ep) = Inr (related, config)"
      and k: "as_dict (store ep) config = Some kwargs"
      and ser: "list_all (\<lambda>x. serialize ep x kwargs = Inr (out x)) data"
      and n: "py_int txt = Some number"
      and pg: "paginator_page 100 data number = Inr pg"
  shows "list_get ep (page_request txt) =
           Inr \<lparr>meta = \<lparr>meta_count = length (object_list pg), meta_page = number,
                         meta_per_page = 100, meta_max_page = end_index pg,
                         meta_total_count = length data\<rparr>,
                results = map out (object_list pg), allow_origin = ''*''\<rparr>"
proof -
  have pop: "pop_page (page_request txt) = Inr (number, Map.empty)"
    using n by (simp add: pop_page_def page_request_def)
  have sub: "set (object_list pg) \<subseteq> set data"
    using pg set_take_subset[of 100 "drop ((nat number - 1) * 100) data"]
      set_drop_subset[of "(nat number - 1) * 100" data]
    by (auto simp: paginator_page_def split: if_splits)
  have "list_all (\<lambda>x. serialize ep x kwargs = Inr (out x)) (object_list pg)"
    using ser sub by (auto simp: list_all_iff)
  then have sa: "serialize_all (\<lambda>x. serialize ep x kwargs) (object_list pg) = Inr (map out (object_list pg))"
    by (rule serialize_all_map)
  have cb: "list_get ep (page_request txt) = list_get_body ep (page_request txt)"
    by (simp add: list_get_def cachebusterable_def page_request_def)
  show ?thesis
    unfolding cb
    by (simp add: list_get_body_def pop pop_list_def filter_data_def adjust_filters_def f
          sort_data_def s paginate_def pp pg g k sa)
qed

lemma list_get_empty_page:
  assumes pp: "per_page ep = 100"
      and f: "data_filter ep Map.empty (get_query_set ep) = Inr filtered"
      and s: "data_order_by ep [] filtered = Inr data"
      and n: "py_int txt = Some number"
      and pg: "paginator_page 100 data number = Inl EmptyPage"
  shows "list_get ep (page_request txt) = Inl (HttpError 404 NoSuchPage)"
proof -
  have pop: "pop_page (page_request txt) = Inr (number, Map.empty)"
    using n by (simp add: pop_page_def page_request_def)
  have cb: "list_get ep (page_request txt) = list_get_body ep (page_request txt)"
    by (simp add: list_get_def cachebusterable_def page_request_def)
  show ?thesis
    unfolding cb
    by (simp add: list_get_body_def pop pop_list_def filter_data_def adjust_filters_def f
          sort_data_def s paginate_def pp pg)
qed

lemma py_int_digit: "py_int ''1'' = Some 1" "py_int ''3'' = Some 3" "py_int ''4'' = Some 4"
  by (simp_all add: py_int_def py_strip_def is_py_space_def is_py_digit_def digit_val_def)

lemma paginator_page_250:
  assumes "length data = 250"
  shows "paginator_page 100 data 1 = Inr \<lparr>object_list = take 100 data, end_index = 100\<rparr>"
    and "paginator_page 100 data 3 = Inr \<lparr>object_list = drop 200 data, end_index = 250\<rparr>"
    and "paginator_page 100 data 4 = Inl EmptyPage"
  using assms by (simp_all add: paginator_page_def num_pages_def)

text \<open>Two endpoints over \<open>relation_spec\<close>: a list view of 250 rows with the default page
  size, and a detail view. Their collaborators accept everything.\<close>

definition demo_list :: "(unit, unit) list_endpoint" where
  "demo_list =
     \<lparr>per_page = 100, store = relation_spec, serialize_config = VRef 0, default_fields = [],
      get_query_set = replicate 250 (), data_filter = (\<lambda>kw data. Inr data),
      data_order_by = (\<lambda>keys data. Inr data), serialize = (\<lambda>x kw. Inr x)\<rparr>"

definition demo_detail :: "(unit, unit) detail_endpoint" where
  "demo_detail =
     \<lparr>detail_store = relation_spec, detail_serialize_config = VRef 0, detail_default_fields = [],
      data_get = (\<lambda>related pk. Inr ()), detail_serialize = (\<lambda>x kw. Inr x)\<rparr>"

section \<open>Claims about the endpoints\<close>

text \<open>
  C6. A list endpoint with page size 100 whose filtered and sorted data has 250 rows,
  asked for the default fields: page 1 has the meta dictionary count 100, page 1,
  per_page 100, max_page 100, total_count 250; page 3 has count 50 and max_page 250,
  the index of the last row in the whole result; page 4 is the 404 "no such page" error.
\<close>

theorem list_get_pagination:
  assumes "per_page ep = 100"
      and "data_filter ep Map.empty (get_query_set ep) = Inr filtered"
      and "data_order_by ep [] filtered = Inr data"
      and "length data = 250"
      and "get_fields (store ep) (serialize_config ep) (default_fields ep) = Inr (related, config)"
      and "as_dict (store ep) config = Some kwargs"
      and "list_all (\<lambda>x. serialize ep x kwargs = Inr (out x)) data"
  shows "list_get ep (page_request ''1'') =
           Inr \<lparr>meta = \<lparr>meta_count = 100, meta_page = 1, meta_per_page = 100,
                         meta_max_page = 100, meta_total_count = 250\<rparr>,
                results = map out (take 100 data), allow_origin = ''*''\<rparr>
       \<and> list_get ep (page_request ''3'') =
           Inr \<lparr>meta = \<lparr>meta_count = 50, meta_page = 3, meta_per_page = 100,
                         meta_max_page = 250, meta_total_count = 250\<rparr>,
                results = map out (drop 200 data), allow_origin = ''*''\<rparr>
       \<and> list_get ep (page_request ''4'') = Inl (HttpError 404 NoSuchPage)"
proof (intro conjI)
  note pgs = paginator_page_250[OF assms(4)]
  show "list_get ep (page_request ''1'') =
           Inr \<lparr>meta = \<lparr>meta_count = 100, meta_page = 1, meta_per_page = 100,
                         meta_max_page = 100, meta_total_count = 250\<rparr>,
                results = map out (take 100 data), allow_origin = ''*''\<rparr>"
    using list_get_page[OF assms(1,2,3,5,6,7) py_int_digit(1) pgs(1)] assms(4) by simp
  show "list_get ep (page_request ''3'') =
           Inr \<lparr>meta = \<lparr>meta_count = 50, meta_page = 3, meta_per_page = 100,
                         meta_max_page = 250, meta_total_count = 250\<rparr>,
                results = map out (drop 200 data), allow_origin = ''*''\<rparr>"
    using list_get_page[OF assms(1,2,3,5,6,7) py_int_digit(2) pgs(2)] assms(4) by simp
  show "list_get ep (page_request ''4'') = Inl (HttpError 404 NoSuchPage)"
    using list_get_empty_page[OF assms(1,2,3) py_int_digit(3) pgs(3)] .
qed

text \<open>The list view \<open>demo_list\<close>, 250 rows.\<close>

theorem list_get_pagination_witness:
  "per_page demo_list = 100
   \<and> data_filter demo_list Map.empty (get_query_set demo_list) = Inr (replicate 250 ())
   \<and> data_order_by demo_list [] (replicate 250 ()) = Inr (replicate 250 ())
   \<and> length (replicate 250 ()) = 250
   \<and> get_fields (store demo_list) (serialize_config demo_list) (default_fields demo_list) = Inr ({}, VDict [])
   \<and> as_dict (store demo_list) (VDict []) = Some []
   \<and> list_all (\<lambda>x. serialize demo_list x [] = Inr x) (replicate 250 ())
   \<and> list_get demo_list (page_request ''1'') =
           Inr \<lparr>meta = \<lparr>meta_count = 100, meta_page = 1, meta_per_page = 100,
                         meta_max_page = 100, meta_total_count = 250\<rparr>,
                results = replicate 100 (), allow_origin = ''*''\<rparr>
   \<and> list_get demo_list (page_request ''3'') =
           Inr \<lparr>meta = \<lparr>meta_count = 50, meta_page = 3, meta_per_page = 100,
                         meta_max_page = 250, meta_total_count = 250\<rparr>,
                results = replicate 50 (), allow_origin = ''*''\<rparr>
   \<and> list_get demo_list (page_request ''4'') = Inl (HttpError 404 NoSuchPage)"
proof -
  have 1: "per_page demo_list = 100" by (simp add: demo_list_def)
  have 2: "data_filter demo_list Map.empty (get_query_set demo_list) = Inr (replicate 250 ())"
    by (simp add: demo_list_def)
  have 3: "data_order_by demo_list [] (replicate 250 ()) = Inr (replicate 250 ())"
    by (simp add: demo_list_def)
  have 4: "length (replicate 250 ()) = 250" by simp
  have 5: "get_fields (store demo_list) (serialize_config demo_list) (default_fields demo_list) = Inr ({}, VDict [])"
    by (simp add: demo_list_def get_fields.simps fwrap.simps)
  have 6: "as_dict (store demo_list) (VDict []) = Some []" by simp
  have 7: "list_all (\<lambda>x. serialize demo_list x [] = Inr x) (replicate 250 ())"
    by (simp add: demo_list_def list_all_iff)
  from list_get_pagination[OF 1 2 3 4 5 6 7] 1 2 3 4 5 6 7 show ?thesis by simp
qed

text \<open>
  C7. The parameter \<^verbatim>\<open>"_"\<close> is removed before the view runs: a request with \<^verbatim>\<open>"_"\<close>, of
  any value, gets the response of the same request without it, as for
  \<^verbatim>\<open>{"_": "12345", "status": "active"}\<close> and \<^verbatim>\<open>{"status": "active"}\<close>; and \<^verbatim>\<open>"_"\<close> never
  reaches the filter step, for what the filter would do with keyword arguments that
  contain \<^verbatim>\<open>"_"\<close> changes no response.
\<close>

theorem cache_buster_never_filtered:
  "list_get ep (params(''_'' \<mapsto> v)) = list_get ep (params(''_'' := None)) \<and>
   list_get ep [''_'' \<mapsto> ''12345'', ''status'' \<mapsto> ''active''] = list_get ep [''status'' \<mapsto> ''active''] \<and>
   list_get (ep\<lparr>data_filter := \<lambda>kw. if ''_'' \<in> dom kw then g kw else data_filter ep kw\<rparr>) params
     = list_get ep params"
proof (intro conjI)
  show "list_get ep (params(''_'' \<mapsto> v)) = list_get ep (params(''_'' := None))"
    by (simp add: list_get_def cachebusterable_drop)
  have "[''_'' \<mapsto> ''12345'', ''status'' \<mapsto> ''active''] = [''status'' \<mapsto> ''active''](''_'' \<mapsto> ''12345'')"
    by (simp add: fun_upd_twist)
  moreover have "[''status'' \<mapsto> ''active''](''_'' := None) = [''status'' \<mapsto> ''active'']"
    by (auto simp: fun_eq_iff)
  ultimately show "list_get ep [''_'' \<mapsto> ''12345'', ''status'' \<mapsto> ''active''] = list_get ep [''status'' \<mapsto> ''active'']"
    by (metis cachebusterable_drop list_get_def)
  let ?ep = "ep\<lparr>data_filter := \<lambda>kw. if ''_'' \<in> dom kw then g kw else data_filter ep kw\<rparr>"
  define params' where "params' = (if ''_'' \<in> dom params then params(''_'' := None) else params)"
  have nd: "''_'' \<notin> dom params'" by (simp add: params'_def)
  have "list_get ?ep params = list_get_body ?ep params'"
    by (simp add: list_get_def cachebusterable_def params'_def)
  also have "\<dots> = list_get_body ep params'"
    by (rule list_get_body_filter_irrelevant[OF nd])
  also have "\<dots> = list_get ep params"
    by (simp add: list_get_def cachebusterable_def params'_def)
  finally show "list_get ?ep params = list_get ep params" .
qed

text \<open>
  C8. The claim fails on the code. The detail view asked for the unknown field
  \<^verbatim>\<open>bogus\<close> does not answer with an \<^verbatim>\<open>HttpError\<close> 400: the \<^verbatim>\<open>FieldKeyError\<close> of
  \<^verbatim>\<open>get_fields\<close> leaves the view uncaught. The list view on the same configuration
  answers 400 with the field in the message.
\<close>

theorem detail_get_invalid_field_uncaught:
  "detail_get demo_detail ''1'' [''fields'' \<mapsto> ''bogus''] = Inl (Uncaught (FieldKeyError ''bogus''))
   \<and> list_get demo_list [''fields'' \<mapsto> ''bogus''] = Inl (HttpError 400 (InvalidFieldPath ''bogus''))"
proof -
  have g: "get_fields relation_spec (VRef 0) [''bogus''] = Inl (FieldKeyError ''bogus'')"
    by code_simp
  have pg: "paginator_page 100 (replicate 250 ()) 1 = Inr \<lparr>object_list = replicate 100 (), end_index = 100\<rparr>"
    by (simp add: paginator_page_def num_pages_def)
  show ?thesis
    by (simp add: detail_get_def list_get_def cachebusterable_def detail_get_body_def
          list_get_body_def pop_page_def pop_list_def demo_detail_def demo_list_def g
          filter_data_def adjust_filters_def sort_data_def paginate_def pg)
qed

end
